theory Spec2Isabelle
  imports Main
begin

section \<open>Errors\<close>

text \<open>
  The exceptions the program raises and that the command layer's \<open>input_error\<close>
  decorator catches. \<open>OverflowError\<close> is what date arithmetic raises when it
  leaves the range of \<open>datetime.date\<close>; \<open>input_error\<close> does not catch it.
\<close>

datatype error = ValueError | KeyError string | IndexError | OverflowError

section \<open>Calendar dates (\<open>datetime.date\<close>)\<close>

text \<open>
  The proleptic Gregorian calendar of Python's \<open>datetime\<close> module, years 1 to 9999.
  Python integers are unbounded, hence \<open>int\<close>.
\<close>

record date =
  year :: int
  month :: int
  day :: int

text \<open>\<open>datetime.datetime\<close> is a subclass of \<open>date\<close> that adds the time of day.\<close>

record datetime = date +
  hour :: int
  minute :: int
  second :: int
  microsecond :: int

definition MINYEAR :: int where "MINYEAR = 1"
definition MAXYEAR :: int where "MAXYEAR = 9999"
definition MAXORDINAL :: int where "MAXORDINAL = 3652059"

definition DAYS_IN_MONTH :: "int list" where
  "DAYS_IN_MONTH = [-1, 31, 28, 31, 30, 31, 30, 31, 31, 30, 31, 30, 31]"

definition DAYS_BEFORE_MONTH :: "int list" where
  "DAYS_BEFORE_MONTH = [-1, 0, 31, 59, 90, 120, 151, 181, 212, 243, 273, 304, 334]"

definition is_leap :: "int \<Rightarrow> bool" where
  "is_leap y = (y mod 4 = 0 \<and> (y mod 100 \<noteq> 0 \<or> y mod 400 = 0))"

definition days_before_year :: "int \<Rightarrow> int" where
  "days_before_year y = (y - 1) * 365 + (y - 1) div 4 - (y - 1) div 100 + (y - 1) div 400"

text \<open>Both are only called with \<open>1 \<le> m \<le> 12\<close> (an assertion in the library).\<close>

definition days_in_month :: "int \<Rightarrow> int \<Rightarrow> int" where
  "days_in_month y m = (if m = 2 \<and> is_leap y then 29 else DAYS_IN_MONTH ! nat m)"

definition days_before_month :: "int \<Rightarrow> int \<Rightarrow> int" where
  "days_before_month y m = DAYS_BEFORE_MONTH ! nat m + (if m > 2 \<and> is_leap y then 1 else 0)"

definition ymd2ord :: "int \<Rightarrow> int \<Rightarrow> int \<Rightarrow> int" where
  "ymd2ord y m d = days_before_year y + days_before_month y m + d"

text \<open>
  The constructor \<open>date(year, month, day)\<close>: \<open>ValueError\<close> unless the fields
  name a day of the calendar.
\<close>

definition check_date_fields :: "int \<Rightarrow> int \<Rightarrow> int \<Rightarrow> bool" where
  "check_date_fields y m d =
     (MINYEAR \<le> y \<and> y \<le> MAXYEAR \<and> 1 \<le> m \<and> m \<le> 12 \<and> 1 \<le> d \<and> d \<le> days_in_month y m)"

definition date_new :: "int \<Rightarrow> int \<Rightarrow> int \<Rightarrow> error + date" where
  "date_new y m d =
     (if check_date_fields y m d then Inr \<lparr>year = y, month = m, day = d\<rparr> else Inl ValueError)"

text \<open>The dates that the constructor builds.\<close>

definition valid_date :: "date \<Rightarrow> bool" where
  "valid_date x = check_date_fields (year x) (month x) (day x)"

text \<open>\<open>x.replace(year=y)\<close> and \<open>x.replace(day=d)\<close> build a new date through the constructor.\<close>

definition replace_year :: "date \<Rightarrow> int \<Rightarrow> error + date" where
  "replace_year x y = date_new y (month x) (day x)"

definition replace_day :: "date \<Rightarrow> int \<Rightarrow> error + date" where
  "replace_day x d = date_new (year x) (month x) d"

definition toordinal :: "date \<Rightarrow> int" where
  "toordinal x = ymd2ord (year x) (month x) (day x)"

text \<open>\<open>x.weekday()\<close>: Monday is 0, Sunday is 6.\<close>

definition weekday :: "date \<Rightarrow> int" where
  "weekday x = (toordinal x + 6) mod 7"

text \<open>\<open>a < b\<close> on dates compares (year, month, day) lexicographically.\<close>

definition date_lt :: "date \<Rightarrow> date \<Rightarrow> bool" where
  "date_lt a b =
     (year a < year b \<or> (year a = year b \<and> (month a < month b \<or> (month a = month b \<and> day a < day b))))"

text \<open>\<open>(a - b).days\<close>: the difference of two dates is a \<open>timedelta\<close> of whole days.\<close>

definition days_between :: "date \<Rightarrow> date \<Rightarrow> int" where
  "days_between a b = toordinal a - toordinal b"

text \<open>\<open>dt.date()\<close> drops the time of day.\<close>

definition date_of :: "datetime \<Rightarrow> date" where
  "date_of dt = \<lparr>year = year dt, month = month dt, day = day dt\<rparr>"

definition day_names :: "string list" where
  "day_names = [''Monday'', ''Tuesday'', ''Wednesday'', ''Thursday'', ''Friday'', ''Saturday'', ''Sunday'']"

text \<open>
  \<open>(x + timedelta(days=n)).strftime("%A")\<close>. The sum is the date with ordinal
  \<open>toordinal x + n\<close>, \<open>OverflowError\<close> outside \<open>1 .. MAXORDINAL\<close>; \<open>%A\<close> is the
  full name of its weekday (C locale), and the weekday of the date with ordinal \<open>o\<close>
  is \<open>(o + 6) mod 7\<close>, so the name is computed from the ordinal without rebuilding
  year, month and day.
\<close>

definition add_days_strftime_A :: "date \<Rightarrow> int \<Rightarrow> error + string" where
  "add_days_strftime_A x n =
     (let ord = toordinal x + n
      in if 0 < ord \<and> ord \<le> MAXORDINAL then Inr (day_names ! nat ((ord + 6) mod 7))
         else Inl OverflowError)"

section \<open>Parsing a birthday (\<open>datetime.strptime(value, '%d.%m.%Y')\<close>)\<close>

text \<open>
  A Python string is a sequence of Unicode code points. \<open>strptime\<close> turns the
  format into the regular expression
  \<^verbatim>\<open>(?P<d>3[0-1]|[1-2]\d|0[1-9]|[1-9]| [1-9])\.(?P<m>1[0-2]|0[1-9]|[1-9])\.(?P<Y>\d\d\d\d)\<close>,
  matches it at the start of the string (alternatives in order, backtracking), fails
  if anything of the string is left after the first match, converts the groups with
  \<open>int\<close> and builds the date. The classes written with brackets are ASCII; the
  class \<open>\d\<close> is every Unicode decimal digit, and \<open>int\<close> reads the same digits.
  The table of the Unicode decimal digits is not part of the program: it is the
  parameter \<open>nd\<close>, which gives the value of a digit and \<open>None\<close> for any other
  code point.
\<close>

type_synonym codepoint = nat
type_synonym pystr = "codepoint list"
type_synonym decimal_table = "codepoint \<Rightarrow> nat option"

definition code_of :: "char \<Rightarrow> codepoint" where
  "code_of c = of_char c"

definition codepoints :: "string \<Rightarrow> pystr" where
  "codepoints s = map code_of s"

text \<open>The class \<open>[lo-hi]\<close>.\<close>

definition in_class :: "char \<Rightarrow> char \<Rightarrow> codepoint \<Rightarrow> bool" where
  "in_class lo hi c = (code_of lo \<le> c \<and> c \<le> code_of hi)"

text \<open>The class \<open>\d\<close>.\<close>

definition unicode_decimal :: "decimal_table \<Rightarrow> codepoint \<Rightarrow> bool" where
  "unicode_decimal nd c = (nd c \<noteq> None)"

text \<open>
  What the proofs use of the table: the ASCII digits have their values, and the dot
  is not a digit.
\<close>

definition unicode_table :: "decimal_table \<Rightarrow> bool" where
  "unicode_table nd =
     ((\<forall>c. in_class CHR ''0'' CHR ''9'' c \<longrightarrow> nd c = Some (c - code_of CHR ''0'')) \<and>
      nd (code_of CHR ''.'') = None)"

text \<open>The table below 256, where the ASCII digits are the only decimal digits.\<close>

definition latin1_decimal :: decimal_table where
  "latin1_decimal c =
     (if in_class CHR ''0'' CHR ''9'' c then Some (c - code_of CHR ''0'') else None)"

text \<open>A table that also knows the Arabic-Indic digits U+0660 to U+0669, for examples.\<close>

definition arabic_decimal :: decimal_table where
  "arabic_decimal c =
     (if in_class CHR ''0'' CHR ''9'' c then Some (c - code_of CHR ''0'')
      else if 1632 \<le> c \<and> c \<le> 1641 then Some (c - 1632) else None)"

text \<open>An alternative of a group: the number of characters it consumes and the test on them.\<close>

type_synonym alt = "nat \<times> (pystr \<Rightarrow> bool)"

definition alts_d :: "decimal_table \<Rightarrow> alt list" where
  "alts_d nd =
     [(2, \<lambda>p. p ! 0 = code_of CHR ''3'' \<and> in_class CHR ''0'' CHR ''1'' (p ! 1)),
      (2, \<lambda>p. in_class CHR ''1'' CHR ''2'' (p ! 0) \<and> unicode_decimal nd (p ! 1)),
      (2, \<lambda>p. p ! 0 = code_of CHR ''0'' \<and> in_class CHR ''1'' CHR ''9'' (p ! 1)),
      (1, \<lambda>p. in_class CHR ''1'' CHR ''9'' (p ! 0)),
      (2, \<lambda>p. p ! 0 = code_of CHR '' '' \<and> in_class CHR ''1'' CHR ''9'' (p ! 1))]"

definition alts_m :: "alt list" where
  "alts_m =
     [(2, \<lambda>p. p ! 0 = code_of CHR ''1'' \<and> in_class CHR ''0'' CHR ''2'' (p ! 1)),
      (2, \<lambda>p. p ! 0 = code_of CHR ''0'' \<and> in_class CHR ''1'' CHR ''9'' (p ! 1)),
      (1, \<lambda>p. in_class CHR ''1'' CHR ''9'' (p ! 0))]"

definition alts_Y :: "decimal_table \<Rightarrow> alt list" where
  "alts_Y nd = [(4, list_all (unicode_decimal nd))]"

text \<open>Every way a group matches a prefix of \<open>s\<close>, in the order the regex engine tries them,
  each with the rest of the string.\<close>

definition match_alts :: "alt list \<Rightarrow> pystr \<Rightarrow> (pystr \<times> pystr) list" where
  "match_alts as s = [(take n s, drop n s). (n, p) \<leftarrow> as, n \<le> length s, p (take n s)]"

definition match_dot :: "pystr \<Rightarrow> pystr list" where
  "match_dot s = (case s of [] \<Rightarrow> [] | c # r \<Rightarrow> if c = code_of CHR ''.'' then [r] else [])"

text \<open>A group followed by the literal dot.\<close>

definition match_then_dot :: "alt list \<Rightarrow> pystr \<Rightarrow> (pystr \<times> pystr) list" where
  "match_then_dot as s = [(g, r2). (g, r1) \<leftarrow> match_alts as s, r2 \<leftarrow> match_dot r1]"

definition regex_dmY :: "decimal_table \<Rightarrow> pystr \<Rightarrow> (pystr \<times> pystr \<times> pystr \<times> pystr) list" where
  "regex_dmY nd s =
     [(d, m, y, r5).
        (d, r2) \<leftarrow> match_then_dot (alts_d nd) s,
        (m, r4) \<leftarrow> match_then_dot alts_m r2,
        (y, r5) \<leftarrow> match_alts (alts_Y nd) r4]"

text \<open>
  \<open>int(g)\<close> on a matched group: decimal digits, after an optional leading blank.
  (On any other text \<open>int\<close> raises; a matched group is never such a text.)
\<close>

definition py_int :: "decimal_table \<Rightarrow> pystr \<Rightarrow> int" where
  "py_int nd g =
     foldl (\<lambda>a c. 10 * a + (case nd c of None \<Rightarrow> 0 | Some v \<Rightarrow> int v)) 0
       (dropWhile (\<lambda>c. c = code_of CHR '' '') g)"

definition strptime_dmY :: "decimal_table \<Rightarrow> pystr \<Rightarrow> error + datetime" where
  "strptime_dmY nd s =
     (case regex_dmY nd s of
        [] \<Rightarrow> Inl ValueError
      | (d, m, y, rest) # _ \<Rightarrow>
          if rest \<noteq> [] then Inl ValueError
          else (case date_new (py_int nd y) (py_int nd m) (py_int nd d) of
                  Inl e \<Rightarrow> Inl e
                | Inr x \<Rightarrow> Inr (date.extend x
                    \<lparr>hour = 0, minute = 0, second = 0, microsecond = 0\<rparr>)))"

text \<open>\<open>Birthday.validate_birthday\<close> on any string.\<close>

definition validate_birthday_u :: "decimal_table \<Rightarrow> pystr \<Rightarrow> bool" where
  "validate_birthday_u nd v = (case strptime_dmY nd v of Inl e \<Rightarrow> False | Inr x \<Rightarrow> True)"

section \<open>Fields\<close>

text \<open>
  \<open>Name\<close>, \<open>Phone\<close> and \<open>Birthday\<close> wrap one string, \<open>value\<close>; the model keeps the
  string, and each constructor returns it or raises \<open>ValueError\<close>. The strings that
  the records hold are of type \<open>string\<close>: a \<open>char\<close> stands for a code point below 256.
  \<open>str.isdigit\<close> holds of the digits \<open>0-9\<close> and, below 256, of the superscript
  digits U+00B2, U+00B3 and U+00B9; it is false of the empty string.
\<close>

definition is_decimal :: "char \<Rightarrow> bool" where
  "is_decimal c = (c \<in> set ''0123456789'')"

definition Name :: "string \<Rightarrow> error + string" where
  "Name v = (if v = [] then Inl ValueError else Inr v)"

definition isdigit_char :: "char \<Rightarrow> bool" where
  "isdigit_char c = (is_decimal c \<or> c \<in> {CHR 0xB2, CHR 0xB3, CHR 0xB9})"

definition isdigit :: "string \<Rightarrow> bool" where
  "isdigit v = (v \<noteq> [] \<and> list_all isdigit_char v)"

definition validate_phone :: "string \<Rightarrow> bool" where
  "validate_phone v = (length v = 10 \<and> isdigit v)"

definition Phone :: "string \<Rightarrow> error + string" where
  "Phone v = (if \<not> validate_phone v then Inl ValueError else Inr v)"

text \<open>The validator and the parser on the strings of the records.\<close>

definition validate_birthday :: "string \<Rightarrow> bool" where
  "validate_birthday v = validate_birthday_u latin1_decimal (codepoints v)"

definition Birthday :: "string \<Rightarrow> error + string" where
  "Birthday v = (if \<not> validate_birthday v then Inl ValueError else Inr v)"

definition to_datetime :: "string \<Rightarrow> error + datetime" where
  "to_datetime v = strptime_dmY latin1_decimal (codepoints v)"

section \<open>Record\<close>

record Record =
  name :: string
  phones :: "string list"
  birthday :: "string option"

definition Record_init :: "string \<Rightarrow> error + Record" where
  "Record_init nm =
     (case Name nm of Inl e \<Rightarrow> Inl e
      | Inr n \<Rightarrow> Inr \<lparr>name = n, phones = [], birthday = None\<rparr>)"

definition add_phone :: "Record \<Rightarrow> string \<Rightarrow> error + Record" where
  "add_phone r phone =
     (case Phone phone of Inl e \<Rightarrow> Inl e | Inr p \<Rightarrow> Inr (r\<lparr>phones := phones r @ [p]\<rparr>))"

definition add_birthday :: "Record \<Rightarrow> string \<Rightarrow> error + Record" where
  "add_birthday r b =
     (case Birthday b of Inl e \<Rightarrow> Inl e | Inr v \<Rightarrow> Inr (r\<lparr>birthday := Some v\<rparr>))"

definition remove_phone :: "Record \<Rightarrow> string \<Rightarrow> Record" where
  "remove_phone r phone = r\<lparr>phones := filter (\<lambda>p. p \<noteq> phone) (phones r)\<rparr>"

definition remove_phones :: "Record \<Rightarrow> Record" where
  "remove_phones r = r\<lparr>phones := []\<rparr>"

text \<open>The loop of \<open>edit_phone\<close>: assign to the first phone equal to \<open>old_phone\<close>, then \<open>break\<close>.\<close>

fun edit_first :: "string \<Rightarrow> string \<Rightarrow> string list \<Rightarrow> string list" where
  "edit_first old_phone new_phone [] = []"
| "edit_first old_phone new_phone (p # ps) =
     (if p = old_phone then new_phone # ps else p # edit_first old_phone new_phone ps)"

definition edit_phone :: "Record \<Rightarrow> string \<Rightarrow> string \<Rightarrow> Record" where
  "edit_phone r old_phone new_phone = r\<lparr>phones := edit_first old_phone new_phone (phones r)\<rparr>"

definition find_phone :: "Record \<Rightarrow> string \<Rightarrow> string option" where
  "find_phone r phone = List.find (\<lambda>p. p = phone) (phones r)"

definition get_birthday :: "Record \<Rightarrow> string option" where
  "get_birthday r = birthday r"

section \<open>AddressBook\<close>

text \<open>
  A dict from the name to the record. A dict keeps its keys in insertion order, and
  assigning to a key that is present keeps the key's place, so the book is an
  association list: the order decides the order of the names in the birthday report.
\<close>

type_synonym AddressBook = "(string \<times> Record) list"

text \<open>\<open>data[k] = r\<close>\<close>

fun setitem :: "string \<Rightarrow> Record \<Rightarrow> AddressBook \<Rightarrow> AddressBook" where
  "setitem k r [] = [(k, r)]"
| "setitem k r ((k', r') # rest) =
     (if k' = k then (k, r) # rest else (k', r') # setitem k r rest)"

definition add_record :: "AddressBook \<Rightarrow> Record \<Rightarrow> AddressBook" where
  "add_record book r = setitem (name r) r book"

definition find_book :: "AddressBook \<Rightarrow> string \<Rightarrow> Record option" where
  "find_book book nm = map_of book nm"

definition delete :: "AddressBook \<Rightarrow> string \<Rightarrow> AddressBook" where
  "delete book nm = (if nm \<in> set (map fst book) then filter (\<lambda>kv. fst kv \<noteq> nm) book else book)"

section \<open>The birthday report (\<open>AddressBook.get_birthdays_per_week\<close>)\<close>

text \<open>
  The body of the loop for one contact whose birthday is set, in three steps.
  \<open>candidate\<close>: this year's occurrence of the birthday, or next year's if this
  year's is before today.
\<close>

definition candidate :: "date \<Rightarrow> date \<Rightarrow> error + date" where
  "candidate today bd =
     (case replace_year bd (year today) of
        Inl e \<Rightarrow> Inl e
      | Inr birthday_this_year \<Rightarrow>
          if date_lt birthday_this_year today
          then replace_year birthday_this_year (year today + 1)
          else Inr birthday_this_year)"

text \<open>
  \<open>weekend_shift\<close>: on a Saturday or Sunday the day of the month is replaced by the
  birthday's day number plus the days to Monday.
\<close>

definition weekend_shift :: "date \<Rightarrow> date \<Rightarrow> error + date" where
  "weekend_shift bd birthday_this_year =
     (if weekday birthday_this_year > 4
      then (let delta_days = 6 - weekday birthday_this_year + 1
            in replace_day birthday_this_year (day bd + delta_days))
      else Inr birthday_this_year)"

text \<open>The date the report uses for a stored birthday string.\<close>

definition adjusted :: "date \<Rightarrow> string \<Rightarrow> error + date" where
  "adjusted today b =
     (case to_datetime b of
        Inl e \<Rightarrow> Inl e
      | Inr dt \<Rightarrow>
          (case candidate today (date_of dt) of
             Inl e \<Rightarrow> Inl e
           | Inr birthday_this_year \<Rightarrow> weekend_shift (date_of dt) birthday_this_year))"

text \<open>
  \<open>birthday_slot\<close>: \<open>None\<close> when the contact is skipped (\<open>continue\<close>), otherwise
  the name of the weekday under which the contact is reported.
\<close>

definition birthday_slot :: "date \<Rightarrow> string \<Rightarrow> error + string option" where
  "birthday_slot today b =
     (case adjusted today b of
        Inl e \<Rightarrow> Inl e
      | Inr birthday_this_year \<Rightarrow>
          (let delta_days = days_between birthday_this_year today
           in if delta_days \<ge> 7 then Inr None
              else (case add_days_strftime_A today delta_days of
                      Inl e \<Rightarrow> Inl e
                    | Inr day_of_week \<Rightarrow> Inr (Some day_of_week))))"

text \<open>
  The report is a \<open>defaultdict(list)\<close>: weekday name to names, keys in the order of
  their first use. \<open>bucket_append k v\<close> is \<open>birthdays_by_day[k].append(v)\<close>.
\<close>

type_synonym report = "(string \<times> string list) list"

fun bucket_append :: "string \<Rightarrow> string \<Rightarrow> report \<Rightarrow> report" where
  "bucket_append k v [] = [(k, [v])]"
| "bucket_append k v ((k', vs) # rest) =
     (if k' = k then (k', vs @ [v]) # rest else (k', vs) # bucket_append k v rest)"

fun birthdays_loop :: "date \<Rightarrow> AddressBook \<Rightarrow> report \<Rightarrow> error + report" where
  "birthdays_loop today [] birthdays_by_day = Inr birthdays_by_day"
| "birthdays_loop today ((nm, r) # rest) birthdays_by_day =
     (case get_birthday r of
        None \<Rightarrow> birthdays_loop today rest birthdays_by_day
      | Some b \<Rightarrow>
          (case birthday_slot today b of
             Inl e \<Rightarrow> Inl e
           | Inr None \<Rightarrow> birthdays_loop today rest birthdays_by_day
           | Inr (Some day_of_week) \<Rightarrow>
               birthdays_loop today rest (bucket_append day_of_week nm birthdays_by_day)))"

text \<open>
  The method has no parameter but the book: it reads the clock itself
  (\<open>datetime.today().date()\<close>). The first argument is what \<open>datetime.today()\<close>
  returns at the call.
\<close>

definition get_birthdays_per_week :: "datetime \<Rightarrow> AddressBook \<Rightarrow> error + report" where
  "get_birthdays_per_week clock book = birthdays_loop (date_of clock) book []"

text \<open>The names a report lists, in any bucket.\<close>

definition reported :: "report \<Rightarrow> string set" where
  "reported rep = (\<Union>kv \<in> set rep. set (snd kv))"


text \<open>
  The records for which the body of the loop reaches the window test: no birthday,
  or a birthday whose adjusted date is built without a raise.
\<close>

definition date_computable :: "date \<Rightarrow> Record \<Rightarrow> bool" where
  "date_computable today r =
     (case get_birthday r of
        None \<Rightarrow> True
      | Some b \<Rightarrow> (case adjusted today b of Inl e \<Rightarrow> False | Inr a \<Rightarrow> True))"

section \<open>Command handlers\<close>

text \<open>
  A handler may change the book and then raise, so it returns its outcome together
  with the book it leaves behind. The records are objects held by the dict: a method
  called on the record that \<open>find\<close> returned changes the record in the book, which
  \<open>store_back\<close> writes out.
\<close>

definition store_back :: "AddressBook \<Rightarrow> string \<Rightarrow> Record \<Rightarrow> AddressBook" where
  "store_back book nm r = map (\<lambda>(k, r'). if k = nm then (k, r) else (k, r')) book"

definition input_error :: "error + string \<Rightarrow> error + string" where
  "input_error res =
     (case res of
        Inr s \<Rightarrow> Inr s
      | Inl ValueError \<Rightarrow> Inr ''Give me name and phone please.''
      | Inl (KeyError k) \<Rightarrow> Inr (''Contact '' @ [CHR 0x27] @ k @ [CHR 0x27] @ '' not found.'')
      | Inl IndexError \<Rightarrow> Inr ''Invalid command format.''
      | Inl OverflowError \<Rightarrow> Inl OverflowError)"

definition add_contact_body :: "string list \<Rightarrow> AddressBook \<Rightarrow> (error + string) \<times> AddressBook" where
  "add_contact_body args book =
     (case args of
        [nm, phone] \<Rightarrow>
          (case Record_init nm of
             Inl e \<Rightarrow> (Inl e, book)
           | Inr record0 \<Rightarrow>
               (case add_phone record0 phone of
                  Inl e \<Rightarrow> (Inl e, book)
                | Inr record1 \<Rightarrow> (Inr ''Contact added.'', add_record book record1)))
      | _ \<Rightarrow> (Inl ValueError, book))"

definition add_contact :: "string list \<Rightarrow> AddressBook \<Rightarrow> (error + string) \<times> AddressBook" where
  "add_contact args book = apfst input_error (add_contact_body args book)"

definition change_contact_body :: "string list \<Rightarrow> AddressBook \<Rightarrow> (error + string) \<times> AddressBook" where
  "change_contact_body args book =
     (case args of
        [nm, new_phone] \<Rightarrow>
          (case find_book book nm of
             None \<Rightarrow> (Inl (KeyError nm), book)
           | Some record0 \<Rightarrow>
               (let record1 = remove_phones record0;
                    book1 = store_back book nm record1
                in case add_phone record1 new_phone of
                     Inl e \<Rightarrow> (Inl e, book1)
                   | Inr record2 \<Rightarrow> (Inr ''Contact updated.'', store_back book1 nm record2)))
      | _ \<Rightarrow> (Inl ValueError, book))"

definition change_contact :: "string list \<Rightarrow> AddressBook \<Rightarrow> (error + string) \<times> AddressBook" where
  "change_contact args book = apfst input_error (change_contact_body args book)"

section \<open>Sequences of operations on the store\<close>

text \<open>
  What a client of the classes can do to a book: add a fresh record, delete one, and
  call a method on the record stored under a name. An operation that raises, or that
  names a contact the book does not have, leaves the book as it was.
\<close>

datatype operation =
    AddRecord string
  | Delete string
  | AddPhone string string
  | RemovePhone string string
  | EditPhone string string string
  | AddBirthday string string

fun apply_operation :: "AddressBook \<Rightarrow> operation \<Rightarrow> AddressBook" where
  "apply_operation book (AddRecord nm) =
     (case Record_init nm of Inl e \<Rightarrow> book | Inr r \<Rightarrow> add_record book r)"
| "apply_operation book (Delete nm) = delete book nm"
| "apply_operation book (AddPhone nm phone) =
     (case find_book book nm of
        None \<Rightarrow> book
      | Some r \<Rightarrow> (case add_phone r phone of Inl e \<Rightarrow> book | Inr r' \<Rightarrow> store_back book nm r'))"
| "apply_operation book (RemovePhone nm phone) =
     (case find_book book nm of
        None \<Rightarrow> book
      | Some r \<Rightarrow> store_back book nm (remove_phone r phone))"
| "apply_operation book (EditPhone nm old_phone new_phone) =
     (case find_book book nm of
        None \<Rightarrow> book
      | Some r \<Rightarrow> store_back book nm (edit_phone r old_phone new_phone))"
| "apply_operation book (AddBirthday nm b) =
     (case find_book book nm of
        None \<Rightarrow> book
      | Some r \<Rightarrow> (case add_birthday r b of Inl e \<Rightarrow> book | Inr r' \<Rightarrow> store_back book nm r'))"

definition run_operations :: "operation list \<Rightarrow> AddressBook" where
  "run_operations ops = foldl apply_operation [] ops"

text \<open>
  The store invariant in the specification's words: a non-empty name, phones of
  exactly ten decimal digits, a birthday that is a day of the calendar.
\<close>

definition record_invariant :: "Record \<Rightarrow> bool" where
  "record_invariant r =
     (name r \<noteq> [] \<and>
      list_all (\<lambda>p. length p = 10 \<and> list_all is_decimal p) (phones r) \<and>
      (case birthday r of None \<Rightarrow> True | Some b \<Rightarrow> validate_birthday b))"

definition store_invariant :: "AddressBook \<Rightarrow> bool" where
  "store_invariant book = list_all (\<lambda>kv. record_invariant (snd kv)) book"

text \<open>The same with the phones as the validator of the code accepts them.\<close>

definition record_validated :: "Record \<Rightarrow> bool" where
  "record_validated r =
     (name r \<noteq> [] \<and> list_all validate_phone (phones r) \<and>
      (case birthday r of None \<Rightarrow> True | Some b \<Rightarrow> validate_birthday b))"

definition store_validated :: "AddressBook \<Rightarrow> bool" where
  "store_validated book = list_all (\<lambda>kv. record_validated (snd kv)) book"

text \<open>The operations that put an unvalidated phone into a record.\<close>

fun invalid_edit :: "operation \<Rightarrow> bool" where
  "invalid_edit (EditPhone nm old_phone new_phone) = (\<not> validate_phone new_phone)"
| "invalid_edit other = False"

section \<open>The birthday format, described\<close>

text \<open>
  The texts the parser takes for a day, a month and a year. A day is one or two ASCII
  digits, or a blank and an ASCII digit, or an ASCII \<open>1\<close> or \<open>2\<close> followed by any
  Unicode decimal digit; a month is one or two ASCII digits; a year is four Unicode
  decimal digits. \<open>strict_text\<close> is the two-digit form of the specification.
\<close>

definition day_text :: "decimal_table \<Rightarrow> pystr \<Rightarrow> bool" where
  "day_text nd g =
     ((length g = 1 \<or> length g = 2) \<and> list_all (in_class CHR ''0'' CHR ''9'') g \<or>
      length g = 2 \<and> g ! 0 = code_of CHR '' '' \<and> in_class CHR ''0'' CHR ''9'' (g ! 1) \<or>
      length g = 2 \<and> in_class CHR ''1'' CHR ''2'' (g ! 0) \<and> unicode_decimal nd (g ! 1))"

definition month_text :: "pystr \<Rightarrow> bool" where
  "month_text g = ((length g = 1 \<or> length g = 2) \<and> list_all (in_class CHR ''0'' CHR ''9'') g)"

definition year_text :: "decimal_table \<Rightarrow> pystr \<Rightarrow> bool" where
  "year_text nd g = (length g = 4 \<and> list_all (unicode_decimal nd) g)"

definition strict_text :: "pystr \<Rightarrow> bool" where
  "strict_text g = (length g = 2 \<and> list_all (in_class CHR ''0'' CHR ''9'') g)"

section \<open>Clock readings used in the examples\<close>

definition at_ten :: "int \<Rightarrow> int \<Rightarrow> int \<Rightarrow> datetime" where
  "at_ten y m d =
     \<lparr>year = y, month = m, day = d, hour = 10, minute = 0, second = 0, microsecond = 0\<rparr>"

definition contact :: "string \<Rightarrow> string list \<Rightarrow> string option \<Rightarrow> string \<times> Record" where
  "contact nm ps b = (nm, \<lparr>name = nm, phones = ps, birthday = b\<rparr>)"

section \<open>Calendar arithmetic\<close>

lemma div_step:
  fixes y k :: int
  assumes "0 < k"
  shows "y div k = (y - 1) div k + (if y mod k = 0 then 1 else 0)"
proof -
  define q where "q = (y - 1) div k"
  define r where "r = (y - 1) mod k"
  have yq: "y = k * q + (r + 1)" unfolding q_def r_def by simp
  have r0: "0 \<le> r" and rk: "r < k" using assms unfolding r_def by simp_all
  show ?thesis
  proof (cases "r + 1 = k")
    case True
    then have "y = k * (q + 1) + 0" using yq by (simp add: algebra_simps)
    then have "y div k = q + 1" "y mod k = 0" using assms by simp_all
    then show ?thesis unfolding q_def by simp
  next
    case False
    then have lt: "r + 1 < k" using rk by simp
    have "y div k = q" using yq r0 lt by (simp add: int_div_pos_eq)
    moreover have "y mod k = r + 1" using yq r0 lt by (simp add: int_mod_pos_eq)
    ultimately show ?thesis using r0 unfolding q_def by simp
  qed
qed

lemma mod_400_100: "(y::int) mod 400 = 0 \<Longrightarrow> y mod 100 = 0"
proof -
  assume "y mod 400 = 0"
  then have "400 dvd y" by (simp add: mod_eq_0_iff_dvd)
  moreover have "(100::int) dvd 400" by simp
  ultimately have "100 dvd y" by (rule dvd_trans[rotated])
  then show ?thesis by (simp add: mod_eq_0_iff_dvd)
qed

lemma mod_100_4: "(y::int) mod 100 = 0 \<Longrightarrow> y mod 4 = 0"
proof -
  assume "y mod 100 = 0"
  then have "100 dvd y" by (simp add: mod_eq_0_iff_dvd)
  moreover have "(4::int) dvd 100" by simp
  ultimately have "4 dvd y" by (rule dvd_trans[rotated])
  then show ?thesis by (simp add: mod_eq_0_iff_dvd)
qed

lemma days_before_year_next:
  "days_before_year (y + 1) = days_before_year y + (if is_leap y then 366 else 365)"
proof -
  define p4 where "p4 = (y mod 4 = 0)"
  define p100 where "p100 = (y mod 100 = 0)"
  define p400 where "p400 = (y mod 400 = 0)"
  define i4 :: int where "i4 = (if p4 then 1 else 0)"
  define i100 :: int where "i100 = (if p100 then 1 else 0)"
  define i400 :: int where "i400 = (if p400 then 1 else 0)"
  define d4 where "d4 = (y - 1) div 4"
  define d100 where "d100 = (y - 1) div 100"
  define d400 where "d400 = (y - 1) div 400"
  define e4 where "e4 = y div 4"
  define e100 where "e100 = y div 100"
  define e400 where "e400 = y div 400"
  have a: "e4 = d4 + i4"
    unfolding e4_def d4_def i4_def p4_def by (rule div_step) simp
  have b: "e100 = d100 + i100"
    unfolding e100_def d100_def i100_def p100_def by (rule div_step) simp
  have c: "e400 = d400 + i400"
    unfolding e400_def d400_def i400_def p400_def by (rule div_step) simp
  have imp: "p400 \<longrightarrow> p100" "p100 \<longrightarrow> p4"
    unfolding p4_def p100_def p400_def using mod_400_100[of y] mod_100_4[of y] by blast+
  have l: "days_before_year (y + 1) = y * 365 + e4 - e100 + e400"
    unfolding days_before_year_def e4_def e100_def e400_def by (simp only: add_diff_cancel_right')
  have r: "days_before_year y = (y - 1) * 365 + d4 - d100 + d400"
    unfolding days_before_year_def d4_def d100_def d400_def by (rule refl)
  have leap: "is_leap y = (p4 \<and> (\<not> p100 \<or> p400))"
    unfolding is_leap_def p4_def p100_def p400_def by (rule refl)
  have s1: "y * 365 + e4 - e100 + e400 =
      (y - 1) * 365 + d4 - d100 + d400 + (365 + i4 - i100 + i400)"
    using a b c by (simp add: algebra_simps)
  have s2: "365 + i4 - i100 + i400 = (if p4 \<and> (\<not> p100 \<or> p400) then 366 else 365)"
    unfolding i4_def i100_def i400_def using imp by (cases p4; cases p100; cases p400; simp)
  show ?thesis
    unfolding l r leap s1 s2 by (rule refl)
qed

lemma days_before_year_mono: "y \<le> y' \<Longrightarrow> days_before_year y \<le> days_before_year y'"
proof (induction "nat (y' - y)" arbitrary: y')
  case 0
  then show ?case by simp
next
  case (Suc n)
  then have "n = nat ((y' - 1) - y)" "y \<le> y' - 1" by auto
  then have "days_before_year y \<le> days_before_year (y' - 1)" using Suc.hyps(1) by blast
  moreover have "days_before_year (y' - 1) \<le> days_before_year y'"
    using days_before_year_next[of "y' - 1"] by (simp split: if_splits)
  ultimately show ?case by simp
qed

lemma month_cases:
  "1 \<le> (m::int) \<Longrightarrow> m \<le> 12 \<Longrightarrow>
   m = 1 \<or> m = 2 \<or> m = 3 \<or> m = 4 \<or> m = 5 \<or> m = 6 \<or> m = 7 \<or> m = 8 \<or> m = 9 \<or> m = 10 \<or> m = 11 \<or> m = 12"
  by arith

lemma days_before_month_next:
  assumes "1 \<le> m" "m < 12"
  shows "days_before_month y (m + 1) = days_before_month y m + days_in_month y m"
proof -
  from assms month_cases[of m]
  consider "m = 1" | "m = 2" | "m = 3" | "m = 4" | "m = 5" | "m = 6" | "m = 7" | "m = 8"
    | "m = 9" | "m = 10" | "m = 11" by linarith
  then show ?thesis
    by cases (simp_all add: days_before_month_def days_in_month_def DAYS_IN_MONTH_def
        DAYS_BEFORE_MONTH_def)
qed

lemma days_in_month_pos: "1 \<le> m \<Longrightarrow> m \<le> 12 \<Longrightarrow> 28 \<le> days_in_month y m"
  using month_cases[of m]
  by (auto simp: days_in_month_def DAYS_IN_MONTH_def)

lemma days_in_month_le: "1 \<le> m \<Longrightarrow> m \<le> 12 \<Longrightarrow> days_in_month y m \<le> 31"
  using month_cases[of m]
  by (auto simp: days_in_month_def DAYS_IN_MONTH_def)

lemma days_before_month_nonneg: "1 \<le> m \<Longrightarrow> m \<le> 12 \<Longrightarrow> 0 \<le> days_before_month y m"
  using month_cases[of m]
  by (auto simp: days_before_month_def DAYS_BEFORE_MONTH_def)

lemma days_before_month_mono:
  "1 \<le> m \<Longrightarrow> m < m' \<Longrightarrow> m' \<le> 12 \<Longrightarrow>
   days_before_month y m + days_in_month y m \<le> days_before_month y m'"
proof (induction "nat (m' - m)" arbitrary: m')
  case 0
  then show ?case by simp
next
  case (Suc n)
  show ?case
  proof (cases "m' = m + 1")
    case True
    with Suc.prems show ?thesis by (simp add: days_before_month_next)
  next
    case False
    with Suc have n: "n = nat ((m' - 1) - m)" and lt: "m < m' - 1" and le: "m' - 1 \<le> 12" by auto
    have "days_before_month y m + days_in_month y m \<le> days_before_month y (m' - 1)"
      using Suc.hyps(1)[OF n Suc.prems(1) lt le] .
    moreover have "days_before_month y (m' - 1 + 1) =
        days_before_month y (m' - 1) + days_in_month y (m' - 1)"
      using Suc.prems lt by (intro days_before_month_next) auto
    moreover have "28 \<le> days_in_month y (m' - 1)"
      using Suc.prems lt by (intro days_in_month_pos) auto
    ultimately show ?thesis by simp
  qed
qed

lemma day_of_year_le:
  assumes "check_date_fields y m d"
  shows "days_before_month y m + d \<le> (if is_leap y then 366 else 365)"
proof -
  from assms have m: "1 \<le> m" "m \<le> 12" and d: "d \<le> days_in_month y m"
    by (simp_all add: check_date_fields_def)
  have last: "days_before_month y 12 + days_in_month y 12 = (if is_leap y then 366 else 365)"
    by (simp add: days_before_month_def days_in_month_def DAYS_IN_MONTH_def DAYS_BEFORE_MONTH_def)
  show ?thesis
  proof (cases "m = 12")
    case True
    with d last show ?thesis by (simp split: if_splits)
  next
    case False
    with m have "days_before_month y m + days_in_month y m \<le> days_before_month y 12"
      by (intro days_before_month_mono) auto
    moreover have "0 \<le> days_in_month y 12"
      by (simp add: days_in_month_def DAYS_IN_MONTH_def)
    ultimately show ?thesis using d last by (simp split: if_splits)
  qed
qed

lemma ymd2ord_mono:
  assumes a: "check_date_fields y m d" and b: "check_date_fields y' m' d'"
    and le: "y < y' \<or> (y = y' \<and> (m < m' \<or> (m = m' \<and> d \<le> d')))"
  shows "ymd2ord y m d \<le> ymd2ord y' m' d'"
proof -
  from a have m: "1 \<le> m" "m \<le> 12" and d: "1 \<le> d" "d \<le> days_in_month y m"
    by (simp_all add: check_date_fields_def)
  from b have m': "1 \<le> m'" "m' \<le> 12" and d': "1 \<le> d'" "d' \<le> days_in_month y' m'"
    by (simp_all add: check_date_fields_def)
  consider "y < y'" | "y = y'" "m < m'" | "y = y'" "m = m'" "d \<le> d'" using le by blast
  then show ?thesis
  proof cases
    case 1
    have "days_before_month y m + d \<le> (if is_leap y then 366 else 365)"
      using a by (rule day_of_year_le)
    then have "ymd2ord y m d \<le> days_before_year (y + 1)"
      by (simp add: ymd2ord_def days_before_year_next)
    also have "\<dots> \<le> days_before_year y'" using 1 by (intro days_before_year_mono) simp
    also have "\<dots> \<le> ymd2ord y' m' d'"
      using days_before_month_nonneg[OF m', of y'] d' by (simp add: ymd2ord_def)
    finally show ?thesis .
  next
    case 2
    have "days_before_month y m + days_in_month y m \<le> days_before_month y m'"
      using m(1) 2(2) m'(2) by (rule days_before_month_mono)
    then show ?thesis using d d' 2 by (simp add: ymd2ord_def)
  next
    case 3
    then show ?thesis by (simp add: ymd2ord_def)
  qed
qed

lemma toordinal_mono:
  assumes "valid_date a" and "valid_date b" and "\<not> date_lt b a"
  shows "toordinal a \<le> toordinal b"
  unfolding toordinal_def
proof (rule ymd2ord_mono)
  show "check_date_fields (year a) (month a) (day a)" using assms(1) by (simp add: valid_date_def)
  show "check_date_fields (year b) (month b) (day b)" using assms(2) by (simp add: valid_date_def)
  show "year a < year b \<or> (year a = year b \<and> (month a < month b \<or> (month a = month b \<and> day a \<le> day b)))"
    using assms(3) unfolding date_lt_def by linarith
qed

lemma date_new_Inr:
  "date_new y m d = Inr x \<Longrightarrow> check_date_fields y m d \<and> x = \<lparr>year = y, month = m, day = d\<rparr>"
  by (auto simp: date_new_def split: if_splits)

lemma date_new_valid: "date_new y m d = Inr x \<Longrightarrow> valid_date x"
  by (auto simp: valid_date_def dest: date_new_Inr)

lemma candidate_props:
  assumes t: "valid_date today" and c: "candidate today bd = Inr c"
  shows "valid_date c" and "day c = day bd" and "month c = month bd"
    and "toordinal today \<le> toordinal c"
proof -
  from c obtain x where x: "replace_year bd (year today) = Inr x"
    by (auto simp: candidate_def split: sum.splits)
  from x have xv: "valid_date x" and xf: "day x = day bd" "month x = month bd" "year x = year today"
    by (auto simp: replace_year_def dest: date_new_valid date_new_Inr)
  have "valid_date c \<and> day c = day bd \<and> month c = month bd \<and> toordinal today \<le> toordinal c"
  proof (cases "date_lt x today")
    case False
    with c x have "c = x" by (simp add: candidate_def)
    with xv xf False t show ?thesis by (simp add: toordinal_mono)
  next
    case True
    with c x have r: "replace_year x (year today + 1) = Inr c" by (simp add: candidate_def)
    then have cv: "valid_date c" and cf: "day c = day x" "month c = month x" "year c = year today + 1"
      by (auto simp: replace_year_def dest: date_new_valid date_new_Inr)
    have "\<not> date_lt c today" using cf by (simp add: date_lt_def)
    with t cv have "toordinal today \<le> toordinal c" by (rule toordinal_mono)
    with cv cf xf show ?thesis by simp
  qed
  then show "valid_date c" and "day c = day bd" and "month c = month bd"
    and "toordinal today \<le> toordinal c" by simp_all
qed


lemma weekend_shift_weekday: "weekday c \<le> 4 \<Longrightarrow> weekend_shift bd c = Inr c"
  by (simp add: weekend_shift_def)



lemma weekend_shift_valid:
  assumes "valid_date c" and "weekend_shift bd c = Inr a"
  shows "valid_date a"
  using assms by (auto simp: weekend_shift_def Let_def replace_day_def split: if_splits dest: date_new_valid)


lemma toordinal_range:
  assumes "valid_date x"
  shows "0 < toordinal x" and "toordinal x \<le> MAXORDINAL"
proof -
  have c: "check_date_fields (year x) (month x) (day x)" using assms by (simp add: valid_date_def)
  have lo: "check_date_fields 1 1 1" and hi: "check_date_fields 9999 12 31"
    by (simp_all add: check_date_fields_def MINYEAR_def MAXYEAR_def days_in_month_def
        DAYS_IN_MONTH_def is_leap_def)
  have "ymd2ord 1 1 1 \<le> ymd2ord (year x) (month x) (day x)"
    using lo c
  proof (rule ymd2ord_mono)
    from c show "1 < year x \<or> 1 = year x \<and> (1 < month x \<or> 1 = month x \<and> 1 \<le> day x)"
      unfolding check_date_fields_def MINYEAR_def by linarith
  qed
  moreover have "ymd2ord 1 1 1 = 1"
    by (simp add: ymd2ord_def days_before_year_def days_before_month_def DAYS_BEFORE_MONTH_def)
  ultimately show "0 < toordinal x" by (simp add: toordinal_def)
  have "ymd2ord (year x) (month x) (day x) \<le> ymd2ord 9999 12 31"
    using c hi
  proof (rule ymd2ord_mono)
    from c have "year x \<le> 9999" "month x \<le> 12" "day x \<le> days_in_month (year x) (month x)"
      "1 \<le> month x"
      by (simp_all add: check_date_fields_def MAXYEAR_def)
    moreover from this have "days_in_month (year x) (month x) \<le> 31"
      by (intro days_in_month_le)
    ultimately show "year x < 9999 \<or> year x = 9999 \<and> (month x < 12 \<or> month x = 12 \<and> day x \<le> 31)"
      by linarith
  qed
  moreover have "ymd2ord 9999 12 31 = MAXORDINAL"
    by (simp add: ymd2ord_def days_before_year_def days_before_month_def DAYS_BEFORE_MONTH_def
        is_leap_def MAXORDINAL_def)
  ultimately show "toordinal x \<le> MAXORDINAL" by (simp add: toordinal_def)
qed

lemma adjusted_valid:
  assumes "valid_date today" and "adjusted today b = Inr a"
  shows "valid_date a"
proof -
  from assms(2) obtain dt c where c: "candidate today (date_of dt) = Inr c"
    and s: "weekend_shift (date_of dt) c = Inr a"
    by (auto simp: adjusted_def split: sum.splits)
  from candidate_props(1)[OF assms(1) c] s show ?thesis by (rule weekend_shift_valid)
qed

lemma birthday_slot_total:
  assumes "valid_date today" and "adjusted today b = Inr a"
  shows "birthday_slot today b =
           Inr (if days_between a today < 7
                then Some (day_names ! nat (weekday a)) else None)"
proof -
  from toordinal_range[OF adjusted_valid[OF assms]]
  have "0 < toordinal a" "toordinal a \<le> MAXORDINAL" .
  then show ?thesis using assms(2)
    by (simp add: birthday_slot_def Let_def days_between_def add_days_strftime_A_def weekday_def)
qed

section \<open>The store: adding, finding and changing a contact\<close>

lemma map_of_setitem: "map_of (setitem k r book) k = Some r"
  by (induction book) auto

lemma map_of_store_back:
  "map_of book nm = Some r \<Longrightarrow> map_of (store_back book nm r') nm = Some r'"
  by (induction book) (auto simp: store_back_def split: if_splits)

text \<open>
  Claim C9. For every book, every valid (non-empty) name and every valid phone, the
  \<open>add\<close> command succeeds, and afterwards \<open>find\<close> of the name returns a record
  with that name and with the phone list of the added record, the one phone.
\<close>

theorem add_contact_roundtrip:
  assumes "nm \<noteq> []" and "validate_phone phone"
  shows "fst (add_contact [nm, phone] book) = Inr ''Contact added.'' \<and>
         (\<exists>r. find_book (snd (add_contact [nm, phone] book)) nm = Some r \<and>
              name r = nm \<and> phones r = [phone])"
  using assms
  by (simp add: add_contact_def add_contact_body_def Record_init_def Name_def add_phone_def
      Phone_def add_record_def find_book_def input_error_def map_of_setitem)

theorem add_contact_roundtrip_witness:
  "fst (add_contact [''Ann'', ''0501234567''] [contact ''Bob'' [''0670000000''] None])
     = Inr ''Contact added.'' \<and>
   (\<exists>r. find_book (snd (add_contact [''Ann'', ''0501234567'']
                         [contact ''Bob'' [''0670000000''] None])) ''Ann'' = Some r \<and>
        name r = ''Ann'' \<and> phones r = [''0501234567''])"
proof -
  have a: "''Ann'' \<noteq> []" by simp
  have b: "validate_phone ''0501234567''" by code_simp
  show ?thesis by (rule add_contact_roundtrip [OF a b])
qed

text \<open>
  Claim C10. When \<open>change\<close> is applied to a contact of the book with a new phone that
  fails validation, the handler answers with the error message, and the record of the
  contact is left with an empty phone list: \<open>remove_phones\<close> ran before \<open>add_phone\<close>
  raised.
\<close>

theorem change_contact_invalid_phone:
  assumes "find_book book nm = Some r" and "\<not> validate_phone new_phone"
  shows "fst (change_contact [nm, new_phone] book) = Inr ''Give me name and phone please.'' \<and>
         find_book (snd (change_contact [nm, new_phone] book)) nm = Some (r\<lparr>phones := []\<rparr>)"
  using assms
  by (simp add: change_contact_def change_contact_body_def add_phone_def Phone_def
      remove_phones_def find_book_def input_error_def map_of_store_back Let_def)

theorem change_contact_invalid_phone_witness:
  "find_book [contact ''Ann'' [''0501234567'', ''0670000000''] None] ''Ann''
     = Some (snd (contact ''Ann'' [''0501234567'', ''0670000000''] None)) \<and>
   \<not> validate_phone ''12345'' \<and>
   fst (change_contact [''Ann'', ''12345''] [contact ''Ann'' [''0501234567'', ''0670000000''] None])
     = Inr ''Give me name and phone please.'' \<and>
   find_book (snd (change_contact [''Ann'', ''12345'']
                [contact ''Ann'' [''0501234567'', ''0670000000''] None])) ''Ann''
     = Some \<lparr>name = ''Ann'', phones = [], birthday = None\<rparr>"
proof -
  have a: "find_book [contact ''Ann'' [''0501234567'', ''0670000000''] None] ''Ann''
     = Some (snd (contact ''Ann'' [''0501234567'', ''0670000000''] None))" by code_simp
  have b: "\<not> validate_phone ''12345''" by code_simp
  show ?thesis using a b change_contact_invalid_phone [OF a b] by (simp add: contact_def)
qed

section \<open>\<open>edit_phone\<close> and the store invariant\<close>

text \<open>
  Claim C5. \<open>edit_phone(old, new)\<close> is to fail when \<open>new\<close> is not a valid phone.
  The method assigns \<open>new\<close> to the \<open>value\<close> of the phone without calling the
  validator that \<open>add_phone\<close> goes through: on a record with the phone
  \<open>1234567890\<close>, \<open>edit_phone("1234567890", "abc")\<close> returns normally and leaves
  the invalid phone \<open>abc\<close> in the list.
\<close>

theorem edit_phone_skips_validation:
  "\<not> validate_phone ''abc'' \<and>
   edit_phone \<lparr>name = ''Ann'', phones = [''1234567890''], birthday = None\<rparr> ''1234567890'' ''abc''
     = \<lparr>name = ''Ann'', phones = [''abc''], birthday = None\<rparr>"
  by code_simp

text \<open>The parts of C5 that the method does: the first equal phone is replaced, and
  nothing changes when no phone equals \<open>old\<close>.\<close>

lemma edit_first_absent: "old_phone \<notin> set ps \<Longrightarrow> edit_first old_phone new_phone ps = ps"
  by (induction ps) auto

lemma edit_first_present:
  "old_phone \<notin> set ps \<Longrightarrow>
   edit_first old_phone new_phone (ps @ old_phone # qs) = ps @ new_phone # qs"
  by (induction ps) auto

text \<open>
  Claim C6. Every sequence of store and record operations is to preserve the store
  invariant. Adding a contact with a valid phone and then editing that phone to
  \<open>abc\<close> reaches a store whose record holds a phone that is not ten digits.
\<close>

theorem edit_phone_breaks_store_invariant:
  "run_operations [AddRecord ''Ann'', AddPhone ''Ann'' ''1234567890'',
                   EditPhone ''Ann'' ''1234567890'' ''abc'']
     = [contact ''Ann'' [''abc''] None] \<and>
   \<not> store_invariant (run_operations [AddRecord ''Ann'', AddPhone ''Ann'' ''1234567890'',
                                        EditPhone ''Ann'' ''1234567890'' ''abc''])"
  by code_simp

text \<open>
  Without such an edit the validators keep every record of the store valid: the name
  is non-empty, the phones pass \<open>validate_phone\<close> and the birthday passes
  \<open>validate_birthday\<close>.
\<close>

lemma edit_first_validated:
  "list_all validate_phone ps \<Longrightarrow> validate_phone new_phone \<Longrightarrow>
   list_all validate_phone (edit_first old_phone new_phone ps)"
  by (induction ps) auto

lemma find_validated:
  "store_validated book \<Longrightarrow> map_of book nm = Some r \<Longrightarrow> record_validated r"
  by (auto simp: store_validated_def list_all_iff dest!: map_of_SomeD)

lemma store_back_validated:
  "store_validated book \<Longrightarrow> record_validated r \<Longrightarrow> store_validated (store_back book nm r)"
  by (auto simp: store_validated_def store_back_def list_all_iff)

lemma setitem_validated:
  "store_validated book \<Longrightarrow> record_validated r \<Longrightarrow> store_validated (setitem k r book)"
  by (induction book) (auto simp: store_validated_def)

lemma delete_validated: "store_validated book \<Longrightarrow> store_validated (delete book nm)"
  by (auto simp: store_validated_def delete_def list_all_iff)

lemma apply_operation_validated:
  assumes "\<not> invalid_edit oper" and "store_validated book"
  shows "store_validated (apply_operation book oper)"
proof (cases oper)
  case (AddRecord nm)
  with assms(2) show ?thesis
    by (auto simp: Record_init_def Name_def add_record_def record_validated_def
        intro!: setitem_validated split: if_splits)
next
  case (Delete nm)
  with assms(2) show ?thesis by (simp add: delete_validated)
next
  case (AddPhone nm phone)
  with assms(2) show ?thesis
    by (auto simp: find_book_def add_phone_def Phone_def record_validated_def
        intro!: store_back_validated dest: find_validated split: option.splits if_splits)
next
  case (RemovePhone nm phone)
  with assms(2) show ?thesis
    by (auto simp: find_book_def remove_phone_def record_validated_def list_all_iff
        intro!: store_back_validated dest: find_validated split: option.splits)
next
  case (EditPhone nm old_phone new_phone)
  with assms show ?thesis
    by (auto simp: find_book_def edit_phone_def record_validated_def edit_first_validated
        intro!: store_back_validated dest: find_validated split: option.splits)
next
  case (AddBirthday nm b)
  with assms(2) show ?thesis
    by (auto simp: find_book_def add_birthday_def Birthday_def record_validated_def
        intro!: store_back_validated dest: find_validated split: option.splits if_splits)
qed

lemma foldl_operations_validated:
  "\<forall>oper \<in> set ops. \<not> invalid_edit oper \<Longrightarrow> store_validated book \<Longrightarrow>
   store_validated (foldl apply_operation book ops)"
  by (induction ops arbitrary: book) (simp_all add: apply_operation_validated)

lemma run_operations_validated:
  "\<forall>oper \<in> set ops. \<not> invalid_edit oper \<Longrightarrow> store_validated (run_operations ops)"
  unfolding run_operations_def
  by (rule foldl_operations_validated) (simp_all add: store_validated_def)

section \<open>The birthday report\<close>

lemma reported_Nil: "reported [] = {}"
  by (simp add: reported_def)

lemma reported_Cons: "reported ((k, vs) # rep) = set vs \<union> reported rep"
  by (simp add: reported_def)

lemma reported_bucket_append: "reported (bucket_append k v rep) = insert v (reported rep)"
proof (induction rep)
  case Nil
  show ?case by (simp add: reported_Nil reported_Cons)
next
  case (Cons kv rep)
  obtain k' vs where "kv = (k', vs)" by (cases kv)
  with Cons show ?case by (auto simp: reported_Cons)
qed

lemma birthdays_loop_reported:
  "birthdays_loop today book acc = Inr rep \<Longrightarrow>
   reported rep = reported acc \<union>
     {nm. \<exists>r b d. (nm, r) \<in> set book \<and> get_birthday r = Some b \<and>
                   birthday_slot today b = Inr (Some d)}"
proof (induction book arbitrary: acc)
  case Nil
  then show ?case by simp
next
  case (Cons kv book)
  obtain nm r where kv: "kv = (nm, r)" by (cases kv)
  show ?case
  proof (cases "get_birthday r")
    case None
    with Cons kv show ?thesis by auto
  next
    case (Some b)
    show ?thesis
    proof (cases "birthday_slot today b")
      case (Inl e)
      with Cons.prems kv Some show ?thesis by simp
    next
      case (Inr s)
      show ?thesis
      proof (cases s)
        case None
        with Cons.prems kv Some Inr have "birthdays_loop today book acc = Inr rep" by simp
        from Cons.IH[OF this] kv Some Inr None show ?thesis by auto
      next
        case (Some d)
        with Cons.prems kv \<open>get_birthday r = Some b\<close> Inr
        have "birthdays_loop today book (bucket_append d nm acc) = Inr rep" by simp
        from Cons.IH[OF this] kv \<open>get_birthday r = Some b\<close> Inr Some show ?thesis
          by (auto simp: reported_bucket_append)
      qed
    qed
  qed
qed

lemma birthdays_loop_slot:
  "birthdays_loop today book acc = Inr rep \<Longrightarrow> (nm, r) \<in> set book \<Longrightarrow>
   get_birthday r = Some b \<Longrightarrow> \<exists>s. birthday_slot today b = Inr s"
proof (induction book arbitrary: acc)
  case Nil
  then show ?case by simp
next
  case (Cons kv book)
  then show ?case
    by (cases kv) (auto split: option.splits sum.splits)
qed

lemma distinct_map_of_mem:
  "distinct (map fst book) \<Longrightarrow> map_of book k = Some v \<Longrightarrow> (k, v') \<in> set book \<Longrightarrow> v' = v"
proof -
  assume d: "distinct (map fst book)" and m: "map_of book k = Some v" and i: "(k, v') \<in> set book"
  from d i have "map_of book k = Some v'" by (rule map_of_is_SomeI)
  with m show "v' = v" by simp
qed

text \<open>
  Claim C1. A candidate date on a Saturday or Sunday is to be moved to the Monday
  after it, also near the end of a month. With today Monday 2024-06-24 and a birthday
  on 29.06, the candidate is Saturday 2024-06-29; the shift asks for day 31 of June,
  and the report raises \<open>ValueError\<close> instead of reporting Monday 2024-07-01.
  (When the shifted day number is still a day of the month, the shift does land on
  the Monday after the candidate: \<open>weekend_shift_weekend\<close>.)
\<close>

theorem weekend_shift_month_end_raises:
  "candidate (date_of (at_ten 2024 6 24)) \<lparr>year = 1990, month = 6, day = 29\<rparr>
     = Inr \<lparr>year = 2024, month = 6, day = 29\<rparr> \<and>
   weekday \<lparr>year = 2024, month = 6, day = 29\<rparr> = 5 \<and>
   weekend_shift \<lparr>year = 1990, month = 6, day = 29\<rparr> \<lparr>year = 2024, month = 6, day = 29\<rparr>
     = Inl ValueError \<and>
   get_birthdays_per_week (at_ten 2024 6 24) [contact ''Zoe'' [''0501234567''] (Some ''29.06.1990'')]
     = Inl ValueError"
  by code_simp

text \<open>
  Claim C4. For a contact born on February 29, the report in a year that is not a
  leap year is to complete with some fallback date. With today 2023-03-01 the
  replacement of the year, \<open>date(2023, 2, 29)\<close>, raises \<open>ValueError\<close>, and so does
  the report.
\<close>

theorem leap_day_birthday_raises:
  "validate_birthday ''29.02.2000'' \<and>
   candidate (date_of (at_ten 2023 3 1)) \<lparr>year = 2000, month = 2, day = 29\<rparr> = Inl ValueError \<and>
   get_birthdays_per_week (at_ten 2023 3 1) [contact ''Leo'' [''0501234567''] (Some ''29.02.2000'')]
     = Inl ValueError"
  by code_simp

lemma birthday_slot_adjusted:
  "birthday_slot today b = Inr s \<Longrightarrow> \<exists>a. adjusted today b = Inr a"
  by (cases "adjusted today b") (simp_all add: birthday_slot_def)


text \<open>
  Claim C3. Today is Monday 2024-06-03 and the book has a contact Bob born on
  08.06.1995. This year's birthday, Saturday 2024-06-08, is shifted to Monday
  2024-06-10, seven days from today, and no bucket of the report names Bob.
\<close>

theorem scenario_B_bob_excluded:
  assumes "date_of clock = \<lparr>year = 2024, month = 6, day = 3\<rparr>"
    and "distinct (map fst book)"
    and "find_book book ''Bob'' = Some r"
    and "get_birthday r = Some ''08.06.1995''"
    and "get_birthdays_per_week clock book = Inr rep"
  shows "weekday (date_of clock) = 0 \<and>
         adjusted (date_of clock) ''08.06.1995'' = Inr \<lparr>year = 2024, month = 6, day = 10\<rparr> \<and>
         days_between \<lparr>year = 2024, month = 6, day = 10\<rparr> (date_of clock) = 7 \<and>
         ''Bob'' \<notin> reported rep"
proof -
  let ?today = "\<lparr>year = 2024, month = 6, day = 3\<rparr>"
  have w: "weekday ?today = 0" by code_simp
  have a: "adjusted ?today ''08.06.1995'' = Inr \<lparr>year = 2024, month = 6, day = 10\<rparr>" by code_simp
  have d: "days_between \<lparr>year = 2024, month = 6, day = 10\<rparr> ?today = 7" by code_simp
  have s: "birthday_slot ?today ''08.06.1995'' = Inr None" by code_simp
  have loop: "birthdays_loop ?today book [] = Inr rep"
    using assms(5) assms(1) by (simp add: get_birthdays_per_week_def)
  have "''Bob'' \<notin> reported rep"
  proof
    assume "''Bob'' \<in> reported rep"
    then obtain r' b' d' where h: "(''Bob'', r') \<in> set book" "get_birthday r' = Some b'"
      "birthday_slot ?today b' = Inr (Some d')"
      using birthdays_loop_reported[OF loop] by (auto simp: reported_Nil)
    have "r' = r"
      using assms(2) assms(3) h(1) unfolding find_book_def by (rule distinct_map_of_mem)
    with h assms(4) s show False by simp
  qed
  with w a d assms(1) show ?thesis by simp
qed

theorem scenario_B_bob_excluded_witness:
  "date_of (at_ten 2024 6 3) = \<lparr>year = 2024, month = 6, day = 3\<rparr> \<and>
   get_birthdays_per_week (at_ten 2024 6 3)
     [contact ''Ann'' [''0501234567''] (Some ''05.06.1990''),
      contact ''Bob'' [''0670000000''] (Some ''08.06.1995'')] = Inr [(''Wednesday'', [''Ann''])] \<and>
   ''Bob'' \<notin> reported [(''Wednesday'', [''Ann''])]"
proof -
  let ?book = "[contact ''Ann'' [''0501234567''] (Some ''05.06.1990''),
      contact ''Bob'' [''0670000000''] (Some ''08.06.1995'')]"
  have h1: "date_of (at_ten 2024 6 3) = \<lparr>year = 2024, month = 6, day = 3\<rparr>" by code_simp
  have h2: "distinct (map fst ?book)" by code_simp
  have h3: "find_book ?book ''Bob'' = Some (snd (contact ''Bob'' [''0670000000''] (Some ''08.06.1995'')))"
    by code_simp
  have h4: "get_birthday (snd (contact ''Bob'' [''0670000000''] (Some ''08.06.1995''))) = Some ''08.06.1995''"
    by code_simp
  have h5: "get_birthdays_per_week (at_ten 2024 6 3) ?book = Inr [(''Wednesday'', [''Ann''])]"
    by code_simp
  from scenario_B_bob_excluded [OF h1 h2 h3 h4 h5] h1 h5 show ?thesis by simp
qed

section \<open>The report: window and order\<close>




lemma birthdays_loop_returns:
  "\<forall>kv \<in> set book. \<forall>b. get_birthday (snd kv) = Some b \<longrightarrow> (\<exists>s. birthday_slot today b = Inr s) \<Longrightarrow>
   \<exists>rep. birthdays_loop today book acc = Inr rep"
proof (induction book arbitrary: acc)
  case Nil
  show ?case by simp
next
  case (Cons kv book)
  obtain nm r where kv: "kv = (nm, r)" by (cases kv)
  from Cons.prems have rest: "\<forall>kv \<in> set book. \<forall>b. get_birthday (snd kv) = Some b \<longrightarrow>
      (\<exists>s. birthday_slot today b = Inr s)" by simp
  show ?case
  proof (cases "get_birthday r")
    case None
    with kv Cons.IH[OF rest] show ?thesis by simp
  next
    case (Some b)
    with Cons.prems kv obtain s where "birthday_slot today b = Inr s" by auto
    with kv Some Cons.IH[OF rest] show ?thesis by (cases s) simp_all
  qed
qed









lemma date_computable_slot:
  assumes "valid_date today" and "date_computable today r" and "get_birthday r = Some b"
  shows "\<exists>s. birthday_slot today b = Inr s"
proof -
  from assms(2,3) obtain a where "adjusted today b = Inr a"
    by (auto simp: date_computable_def split: sum.splits)
  from birthday_slot_total[OF assms(1) this] show ?thesis by blast
qed

text \<open>
  The method returns a report exactly when no contact's date computation raises.
\<close>

lemma report_returned_iff:
  assumes "valid_date (date_of clock)"
  shows "(\<exists>rep. get_birthdays_per_week clock book = Inr rep) \<longleftrightarrow>
         list_all (\<lambda>kv. date_computable (date_of clock) (snd kv)) book"
proof
  assume "\<exists>rep. get_birthdays_per_week clock book = Inr rep"
  then obtain rep where loop: "birthdays_loop (date_of clock) book [] = Inr rep"
    by (auto simp: get_birthdays_per_week_def)
  show "list_all (\<lambda>kv. date_computable (date_of clock) (snd kv)) book"
    unfolding list_all_iff
  proof
    fix kv assume kv: "kv \<in> set book"
    show "date_computable (date_of clock) (snd kv)"
    proof (cases "get_birthday (snd kv)")
      case None
      then show ?thesis by (simp add: date_computable_def)
    next
      case (Some b)
      from kv have "(fst kv, snd kv) \<in> set book" by simp
      from birthdays_loop_slot[OF loop this Some] obtain s where
        "birthday_slot (date_of clock) b = Inr s" by blast
      from birthday_slot_adjusted[OF this] Some show ?thesis
        by (auto simp: date_computable_def)
    qed
  qed
next
  assume "list_all (\<lambda>kv. date_computable (date_of clock) (snd kv)) book"
  then have "\<forall>kv \<in> set book. \<forall>b. get_birthday (snd kv) = Some b \<longrightarrow>
      (\<exists>s. birthday_slot (date_of clock) b = Inr s)"
    using date_computable_slot[OF assms] by (auto simp: list_all_iff)
  from birthdays_loop_returns[OF this] show "\<exists>rep. get_birthdays_per_week clock book = Inr rep"
    by (simp add: get_birthdays_per_week_def)
qed








section \<open>The birthday validator\<close>

lemma match_alts_sound:
  "(g, r) \<in> set (match_alts as s) \<Longrightarrow> s = g @ r \<and> (\<exists>n p. (n, p) \<in> set as \<and> length g = n \<and> p g)"
  by (auto simp: match_alts_def)

lemma match_dot_sound: "r \<in> set (match_dot s) \<Longrightarrow> s = code_of CHR ''.'' # r"
  by (auto simp: match_dot_def split: list.splits if_splits)

lemma match_then_dot_sound:
  "(g, r) \<in> set (match_then_dot as s) \<Longrightarrow>
   s = g @ code_of CHR ''.'' # r \<and> (\<exists>n p. (n, p) \<in> set as \<and> length g = n \<and> p g)"
  by (auto simp: match_then_dot_def dest!: match_alts_sound match_dot_sound)

lemma regex_dmY_sound:
  assumes "(d, m, y, r) \<in> set (regex_dmY nd s)"
  shows "s = d @ codepoints ''.'' @ m @ codepoints ''.'' @ y @ r"
    and "\<exists>n p. (n, p) \<in> set (alts_d nd) \<and> length d = n \<and> p d"
    and "\<exists>n p. (n, p) \<in> set alts_m \<and> length m = n \<and> p m"
    and "\<exists>n p. (n, p) \<in> set (alts_Y nd) \<and> length y = n \<and> p y"
proof -
  from assms obtain r2 r4 where
    d: "(d, r2) \<in> set (match_then_dot (alts_d nd) s)" and
    m: "(m, r4) \<in> set (match_then_dot alts_m r2)" and
    y: "(y, r) \<in> set (match_alts (alts_Y nd) r4)"
    by (auto simp: regex_dmY_def)
  from match_then_dot_sound[OF d] match_then_dot_sound[OF m] match_alts_sound[OF y]
  show "s = d @ codepoints ''.'' @ m @ codepoints ''.'' @ y @ r"
    and "\<exists>n p. (n, p) \<in> set (alts_d nd) \<and> length d = n \<and> p d"
    and "\<exists>n p. (n, p) \<in> set alts_m \<and> length m = n \<and> p m"
    and "\<exists>n p. (n, p) \<in> set (alts_Y nd) \<and> length y = n \<and> p y"
    by (simp_all add: codepoints_def)
qed

lemma length_1_cases: "length g = Suc 0 \<Longrightarrow> \<exists>a. g = [a]"
  by (cases g) auto

lemma length_2_cases: "length g = 2 \<Longrightarrow> \<exists>a b. g = [a, b]"
  by (cases g; cases "tl g") auto

lemma alts_d_day_text:
  "(n, p) \<in> set (alts_d nd) \<Longrightarrow> length g = n \<Longrightarrow> p g \<Longrightarrow> day_text nd g"
  by (auto simp: alts_d_def day_text_def in_class_def code_of_def
      dest!: length_1_cases length_2_cases)

lemma alts_m_month_text: "(n, p) \<in> set alts_m \<Longrightarrow> length g = n \<Longrightarrow> p g \<Longrightarrow> month_text g"
  by (auto simp: alts_m_def month_text_def in_class_def code_of_def
      dest!: length_1_cases length_2_cases)

lemma alts_Y_year_text:
  "(n, p) \<in> set (alts_Y nd) \<Longrightarrow> length g = n \<Longrightarrow> p g \<Longrightarrow> year_text nd g"
  by (auto simp: alts_Y_def year_text_def)

lemma ascii_digit_value:
  "unicode_table nd \<Longrightarrow> in_class CHR ''0'' CHR ''9'' c \<Longrightarrow> nd c = Some (c - 48)"
  by (simp add: unicode_table_def code_of_def)

lemma dot_not_decimal: "unicode_table nd \<Longrightarrow> nd 46 = None"
  by (simp add: unicode_table_def code_of_def)

lemma py_int_one:
  "unicode_table nd \<Longrightarrow> in_class CHR ''0'' CHR ''9'' a \<Longrightarrow> py_int nd [a] = int (a - 48)"
  by (simp add: py_int_def ascii_digit_value) (simp add: in_class_def code_of_def)

lemma py_int_blank:
  "unicode_table nd \<Longrightarrow> in_class CHR ''0'' CHR ''9'' b \<Longrightarrow>
   py_int nd [32, b] = int (b - 48)"
  by (simp add: py_int_def ascii_digit_value) (simp add: in_class_def code_of_def)

lemma py_int_two:
  "unicode_table nd \<Longrightarrow> in_class CHR ''0'' CHR ''9'' a \<Longrightarrow> in_class CHR ''0'' CHR ''9'' b \<Longrightarrow>
   py_int nd [a, b] = 10 * int (a - 48) + int (b - 48)"
  by (simp add: py_int_def ascii_digit_value) (simp add: in_class_def code_of_def)

lemmas parse_defs = match_then_dot_def match_alts_def match_dot_def in_class_def code_of_def
  unicode_decimal_def

lemma match_d_one:
  assumes "unicode_table nd" "in_class CHR ''0'' CHR ''9'' a" "1 \<le> py_int nd [a]"
  shows "match_then_dot (alts_d nd) (a # 46 # r) = [([a], r)]"
  using assms(2,3) dot_not_decimal[OF assms(1)]
  by (auto simp: py_int_one[OF assms(1,2)] parse_defs alts_d_def)

lemma match_d_blank:
  assumes "unicode_table nd" "in_class CHR ''0'' CHR ''9'' b" "1 \<le> py_int nd [32, b]"
  shows "match_then_dot (alts_d nd) (32 # b # 46 # r) = [([32, b], r)]"
  using assms(2,3) dot_not_decimal[OF assms(1)]
  by (auto simp: py_int_blank[OF assms(1,2)] parse_defs alts_d_def)

lemma match_d_unicode:
  assumes "unicode_table nd" "in_class CHR ''1'' CHR ''2'' a" "unicode_decimal nd b"
  shows "match_then_dot (alts_d nd) (a # b # 46 # r) = [([a, b], r)]"
proof -
  have "b \<noteq> 46" using assms(3) dot_not_decimal[OF assms(1)] by (auto simp: unicode_decimal_def)
  then show ?thesis using assms(2,3)
    by (auto simp: parse_defs alts_d_def)
qed

lemma match_d_two:
  assumes t: "unicode_table nd" and a: "in_class CHR ''0'' CHR ''9'' a"
    and b: "in_class CHR ''0'' CHR ''9'' b"
    and lo: "1 \<le> py_int nd [a, b]" and hi: "py_int nd [a, b] \<le> 31"
  shows "match_then_dot (alts_d nd) (a # b # 46 # r) = [([a, b], r)]"
proof -
  have nb: "nd b = Some (b - 48)" using t b by (rule ascii_digit_value)
  have v: "1 \<le> 10 * int (a - 48) + int (b - 48)" "10 * int (a - 48) + int (b - 48) \<le> 31"
    using lo hi by (simp_all add: py_int_two[OF t a b])
  from a b v consider "a = 48" "49 \<le> b" "b \<le> 57" | "a = 49 \<or> a = 50" | "a = 51" "b = 48 \<or> b = 49"
    unfolding in_class_def code_of_def by (simp; linarith)
  then show ?thesis
  proof cases
    case 1
    then show ?thesis by (auto simp: parse_defs alts_d_def)
  next
    case 2
    then have "in_class CHR ''1'' CHR ''2'' a" by (auto simp: in_class_def code_of_def)
    moreover have "unicode_decimal nd b" using nb by (simp add: unicode_decimal_def)
    ultimately show ?thesis using t by (intro match_d_unicode)
  next
    case 3
    then show ?thesis by (auto simp: parse_defs alts_d_def)
  qed
qed

lemma match_m_one:
  assumes "unicode_table nd" "in_class CHR ''0'' CHR ''9'' a" "1 \<le> py_int nd [a]"
  shows "match_then_dot alts_m (a # 46 # r) = [([a], r)]"
  using assms(2,3)
  by (auto simp: py_int_one[OF assms(1,2)] parse_defs alts_m_def)

lemma match_m_two:
  assumes t: "unicode_table nd" and a: "in_class CHR ''0'' CHR ''9'' a"
    and b: "in_class CHR ''0'' CHR ''9'' b"
    and lo: "1 \<le> py_int nd [a, b]" and hi: "py_int nd [a, b] \<le> 12"
  shows "match_then_dot alts_m (a # b # 46 # r) = [([a, b], r)]"
proof -
  have v: "1 \<le> 10 * int (a - 48) + int (b - 48)" "10 * int (a - 48) + int (b - 48) \<le> 12"
    using lo hi by (simp_all add: py_int_two[OF t a b])
  from a b v consider "a = 48" "49 \<le> b" "b \<le> 57" | "a = 49" "48 \<le> b" "b \<le> 50"
    unfolding in_class_def code_of_def by (simp; linarith)
  then show ?thesis
    by cases (auto simp: parse_defs alts_m_def)
qed

lemma match_Y_four:
  assumes "year_text nd y"
  shows "match_alts (alts_Y nd) (y @ r) = [(y, r)]"
  using assms by (simp add: match_alts_def alts_Y_def year_text_def)

lemma day_text_cases:
  assumes "day_text nd g"
  obtains a where "g = [a]" "in_class CHR ''0'' CHR ''9'' a"
    | a b where "g = [a, b]" "in_class CHR ''0'' CHR ''9'' a" "in_class CHR ''0'' CHR ''9'' b"
    | b where "g = [32, b]" "in_class CHR ''0'' CHR ''9'' b"
    | a b where "g = [a, b]" "in_class CHR ''1'' CHR ''2'' a" "unicode_decimal nd b"
  using assms
  by (auto simp: day_text_def code_of_def dest!: length_1_cases length_2_cases)

lemma match_d_day_text:
  assumes "unicode_table nd" and "day_text nd dd" and "1 \<le> py_int nd dd"
    and "py_int nd dd \<le> 31"
  shows "match_then_dot (alts_d nd) (dd @ 46 # r) = [(dd, r)]"
  using assms(2)
proof (cases rule: day_text_cases)
  case (1 a)
  with assms show ?thesis by (simp add: match_d_one)
next
  case (2 a b)
  with assms show ?thesis by (simp add: match_d_two)
next
  case (3 b)
  with assms show ?thesis by (simp add: match_d_blank)
next
  case (4 a b)
  with assms show ?thesis by (simp add: match_d_unicode)
qed

lemma match_m_month_text:
  assumes "unicode_table nd" and "month_text mm" and "1 \<le> py_int nd mm"
    and "py_int nd mm \<le> 12"
  shows "match_then_dot alts_m (mm @ 46 # r) = [(mm, r)]"
proof -
  from assms(2) consider a where "mm = [a]" "in_class CHR ''0'' CHR ''9'' a"
    | a b where "mm = [a, b]" "in_class CHR ''0'' CHR ''9'' a" "in_class CHR ''0'' CHR ''9'' b"
    by (auto simp: month_text_def dest!: length_1_cases length_2_cases)
  then show ?thesis
  proof cases
    case 1
    with assms show ?thesis by (simp add: match_m_one[of nd])
  next
    case 2
    with assms show ?thesis by (simp add: match_m_two[of nd])
  qed
qed

lemma regex_dmY_complete:
  assumes t: "unicode_table nd"
    and "day_text nd dd" and "month_text mm" and "year_text nd yyyy"
    and c: "check_date_fields (py_int nd yyyy) (py_int nd mm) (py_int nd dd)"
  shows "regex_dmY nd (dd @ codepoints ''.'' @ mm @ codepoints ''.'' @ yyyy) = [(dd, mm, yyyy, [])]"
proof -
  from c have m: "1 \<le> py_int nd mm" "py_int nd mm \<le> 12"
    and d: "1 \<le> py_int nd dd" "py_int nd dd \<le> days_in_month (py_int nd yyyy) (py_int nd mm)"
    by (simp_all add: check_date_fields_def)
  from d(2) days_in_month_le[OF m, of "py_int nd yyyy"] have d31: "py_int nd dd \<le> 31" by simp
  have dot: "codepoints ''.'' = [46]" by (simp add: codepoints_def code_of_def)
  have 1: "match_then_dot (alts_d nd) (dd @ 46 # mm @ 46 # yyyy) = [(dd, mm @ 46 # yyyy)]"
    using t assms(2) d(1) d31 by (rule match_d_day_text)
  have 2: "match_then_dot alts_m (mm @ 46 # yyyy) = [(mm, yyyy)]"
    using t assms(3) m by (rule match_m_month_text)
  have 3: "match_alts (alts_Y nd) yyyy = [(yyyy, [])]"
    using match_Y_four[OF assms(4), of "[]"] by simp
  show ?thesis by (simp add: regex_dmY_def dot 1 2 3)
qed

lemma validate_birthday_u_iff:
  assumes t: "unicode_table nd"
  shows "validate_birthday_u nd s \<longleftrightarrow>
      (\<exists>dd mm yyyy. s = dd @ codepoints ''.'' @ mm @ codepoints ''.'' @ yyyy \<and>
         day_text nd dd \<and> month_text mm \<and> year_text nd yyyy \<and>
         check_date_fields (py_int nd yyyy) (py_int nd mm) (py_int nd dd))"
proof
  assume "validate_birthday_u nd s"
  then obtain d m y rest tl' x where r: "regex_dmY nd s = (d, m, y, rest) # tl'" and e: "rest = []"
    and n: "date_new (py_int nd y) (py_int nd m) (py_int nd d) = Inr x"
    by (auto simp: validate_birthday_u_def strptime_dmY_def split: list.splits if_splits sum.splits)
  from r e have mem: "(d, m, y, []) \<in> set (regex_dmY nd s)" by simp
  from regex_dmY_sound[OF mem] have "s = d @ codepoints ''.'' @ m @ codepoints ''.'' @ y"
    "day_text nd d" "month_text m" "year_text nd y"
    by (auto intro: alts_d_day_text alts_m_month_text alts_Y_year_text)
  moreover from n have "check_date_fields (py_int nd y) (py_int nd m) (py_int nd d)"
    by (auto dest: date_new_Inr)
  ultimately show "\<exists>dd mm yyyy. s = dd @ codepoints ''.'' @ mm @ codepoints ''.'' @ yyyy \<and>
         day_text nd dd \<and> month_text mm \<and> year_text nd yyyy \<and>
         check_date_fields (py_int nd yyyy) (py_int nd mm) (py_int nd dd)" by blast
next
  assume "\<exists>dd mm yyyy. s = dd @ codepoints ''.'' @ mm @ codepoints ''.'' @ yyyy \<and>
         day_text nd dd \<and> month_text mm \<and> year_text nd yyyy \<and>
         check_date_fields (py_int nd yyyy) (py_int nd mm) (py_int nd dd)"
  then obtain dd mm yyyy where s: "s = dd @ codepoints ''.'' @ mm @ codepoints ''.'' @ yyyy"
    and x: "day_text nd dd" "month_text mm" "year_text nd yyyy"
    and c: "check_date_fields (py_int nd yyyy) (py_int nd mm) (py_int nd dd)" by blast
  from regex_dmY_complete[OF t x c] c show "validate_birthday_u nd s"
    unfolding s by (simp add: validate_birthday_u_def strptime_dmY_def date_new_def)
qed

lemma unicode_table_latin1: "unicode_table latin1_decimal"
  by (simp add: unicode_table_def latin1_decimal_def in_class_def code_of_def)

lemma unicode_table_arabic: "unicode_table arabic_decimal"
  by (simp add: unicode_table_def arabic_decimal_def in_class_def code_of_def)

text \<open>The two-digit form \<open>DD.MM.YYYY\<close> of a day of the calendar is accepted.\<close>

lemma strict_birthday_accepted:
  assumes "unicode_table nd" and "strict_text dd" and "strict_text mm" and "year_text nd yyyy"
    and "check_date_fields (py_int nd yyyy) (py_int nd mm) (py_int nd dd)"
  shows "validate_birthday_u nd (dd @ codepoints ''.'' @ mm @ codepoints ''.'' @ yyyy)"
proof -
  have "day_text nd dd" and "month_text mm"
    using assms(2,3) by (simp_all add: strict_text_def day_text_def month_text_def)
  with assms(4,5) show ?thesis
    unfolding validate_birthday_u_iff[OF assms(1)] by blast
qed

text \<open>
  Claim C8, as stated: a string with a one-digit day or month is rejected. The parser
  takes a day and a month without the leading zero.
\<close>

theorem validate_birthday_single_digit: "validate_birthday ''1.2.2024''"
  by code_simp

text \<open>
  Claim C8, amended. For every string \<open>s\<close> of Unicode code points,
  \<open>validate_birthday\<close> accepts \<open>s\<close> exactly when \<open>s\<close> is \<open>day.month.year\<close> where
  the day is one or two ASCII digits, or a blank and an ASCII digit, or an ASCII
  \<open>1\<close> or \<open>2\<close> followed by any Unicode decimal digit; the month is one or two ASCII
  digits; the year is four Unicode decimal digits; and the three numbers name a day
  of the calendar (year at least 1). So every two-digit \<open>DD.MM.YYYY\<close> of a real
  date is accepted, another separator or an impossible date is rejected, and
  \<open>31.02.2024\<close> and \<open>01-02-2024\<close> are rejected.
\<close>

theorem validate_birthday_iff:
  assumes "unicode_table nd"
  shows "(validate_birthday_u nd s \<longleftrightarrow>
      (\<exists>dd mm yyyy. s = dd @ codepoints ''.'' @ mm @ codepoints ''.'' @ yyyy \<and>
         day_text nd dd \<and> month_text mm \<and> year_text nd yyyy \<and>
         check_date_fields (py_int nd yyyy) (py_int nd mm) (py_int nd dd))) \<and>
   \<not> validate_birthday ''31.02.2024'' \<and> \<not> validate_birthday ''01-02-2024''"
proof (intro conjI)
  show "validate_birthday_u nd s \<longleftrightarrow>
      (\<exists>dd mm yyyy. s = dd @ codepoints ''.'' @ mm @ codepoints ''.'' @ yyyy \<and>
         day_text nd dd \<and> month_text mm \<and> year_text nd yyyy \<and>
         check_date_fields (py_int nd yyyy) (py_int nd mm) (py_int nd dd))"
    using assms by (rule validate_birthday_u_iff)
  show "\<not> validate_birthday ''31.02.2024''" by code_simp
  show "\<not> validate_birthday ''01-02-2024''" by code_simp
qed

theorem validate_birthday_iff_witness:
  "unicode_table arabic_decimal \<and>
   validate_birthday_u arabic_decimal (codepoints ''1'' @ [1634] @ codepoints ''.2.'' @ [1634, 1632, 1634, 1636]) \<and>
   (\<exists>dd mm yyyy. codepoints ''1'' @ [1634] @ codepoints ''.2.'' @ [1634, 1632, 1634, 1636]
        = dd @ codepoints ''.'' @ mm @ codepoints ''.'' @ yyyy \<and>
      day_text arabic_decimal dd \<and> month_text mm \<and> year_text arabic_decimal yyyy \<and>
      check_date_fields (py_int arabic_decimal yyyy) (py_int arabic_decimal mm) (py_int arabic_decimal dd))"
proof -
  have t: "unicode_table arabic_decimal"
    by (simp add: unicode_table_def arabic_decimal_def in_class_def code_of_def)
  have v: "validate_birthday_u arabic_decimal
      (codepoints ''1'' @ [1634] @ codepoints ''.2.'' @ [1634, 1632, 1634, 1636])" by code_simp
  from t v validate_birthday_iff [OF t, of "codepoints ''1'' @ [1634] @ codepoints ''.2.'' @ [1634, 1632, 1634, 1636]"]
  show ?thesis by blast
qed

end
